theory Spec2Isabelle
  imports Main "HOL-Library.Word" "HOL-Library.Sublist" "HOL-Library.FSet" "HOL-Library.Multiset"
begin

section \<open>Data model (video.h)\<close>

text \<open>
  \<^verbatim>\<open>long long\<close> is a 64-bit word and \<^verbatim>\<open>int\<close> a 32-bit word; \<open>sint\<close> reads the signed
  value. Addition on words wraps around. For the atomic counter of \<^verbatim>\<open>IdGen\<close> that is
  what C++ prescribes; for the plain fields \<^verbatim>\<open>views\<close> and \<^verbatim>\<open>likes\<close> an increment at the
  largest value is a signed overflow, which the model renders as the wrap-around of the
  hardware.
\<close>

type_synonym i64 = "64 word"
type_synonym i32 = "32 word"

datatype OpStatus =
    SUCCESS
  | NOT_FOUND
  | ALREADY_EXISTS
  | PERMISSION_DENIED
  | INVALID_INPUT
  | NOT_LOGGED_IN

record OpResult =
  status :: OpStatus
  message :: string
  res_id :: i64

text \<open>The constructor \<^verbatim>\<open>OpResult(s, m = "", i = -1)\<close> and its two-argument use.\<close>

definition mkOpResult :: "OpStatus \<Rightarrow> string \<Rightarrow> i64 \<Rightarrow> OpResult" where
  "mkOpResult s m i = \<lparr>status = s, message = m, res_id = i\<rparr>"

definition mkOpResult2 :: "OpStatus \<Rightarrow> string \<Rightarrow> OpResult" where
  "mkOpResult2 s m = mkOpResult s m (- 1)"

definition isSuccess :: "OpResult \<Rightarrow> bool" where
  "isSuccess r = (status r = SUCCESS)"

record Comment =
  comment_id :: i64
  author :: string
  comment_text :: string
  likes :: i32
  ts :: i64

record Video =
  video_id :: i64
  title :: string
  uploader :: string
  durationSec :: i32
  views :: i64
  playing :: bool
  comments :: "Comment list"

record Channel =
  channel_name :: string
  owner :: string
  description :: string
  uploads :: "Video list"
  subscribers :: "string fset"

record Playlist =
  playlist_name :: string
  videoIds :: "i64 list"

record User =
  username :: string
  subscriptions :: "string fset"
  historyIds :: "i64 list"
  playlists :: "string \<rightharpoonup> Playlist"

section \<open>Decimal rendering (\<^verbatim>\<open>to_string\<close>, \<^verbatim>\<open>operator<<\<close> on integers)\<close>

fun digits :: "nat \<Rightarrow> string" where
  "digits n =
     (if n < 10 then [''0123456789'' ! n]
      else digits (n div 10) @ [''0123456789'' ! (n mod 10)])"

definition to_string :: "'a::len word \<Rightarrow> string" where
  "to_string x =
     (if sint x < 0 then CHR ''-'' # digits (nat (- sint x)) else digits (nat (sint x)))"

section \<open>IdGen (video.cpp, lines 5 and 30-32)\<close>

text \<open>
  The process-wide counter is passed explicitly. \<^verbatim>\<open>atomic<long long> counter{0LL}\<close> is the
  initial state; \<^verbatim>\<open>++counter\<close> returns the new value. The pair is (value returned, new
  counter).
\<close>

definition IdGen_init :: i64 where
  "IdGen_init = 0"

definition IdGen_next :: "i64 \<Rightarrow> i64 \<times> i64" where
  "IdGen_next counter = (counter + 1, counter + 1)"

section \<open>Comment and Video (video.cpp, lines 48-130)\<close>

text \<open>
  The constructors take the counter and return it advanced. The timestamp of a comment is
  read from the system clock; it is an argument here.
\<close>

definition Comment_ctor :: "string \<Rightarrow> string \<Rightarrow> i64 \<Rightarrow> i64 \<Rightarrow> Comment \<times> i64" where
  "Comment_ctor a t now counter =
     (case IdGen_next counter of (i, counter') \<Rightarrow>
        (\<lparr>comment_id = i, author = a, comment_text = t, likes = 0, ts = now\<rparr>, counter'))"

definition like :: "Comment \<Rightarrow> Comment" where
  "like c = c\<lparr>likes := likes c + 1\<rparr>"

definition Video_ctor :: "string \<Rightarrow> string \<Rightarrow> i32 \<Rightarrow> i64 \<Rightarrow> Video \<times> i64" where
  "Video_ctor t u d counter =
     (case IdGen_next counter of (i, counter') \<Rightarrow>
        (\<lparr>video_id = i, title = t, uploader = u, durationSec = d, views = 0,
          playing = False, comments = []\<rparr>, counter'))"

text \<open>
  Every operation returns its result together with the updated object. The
  \<^verbatim>\<open>PerfTimer\<close> objects only write timing lines when logging is switched on and are left
  out.
\<close>

definition Video_play :: "Video \<Rightarrow> OpResult \<times> Video" where
  \<open>Video_play v =
     (if \<not> playing v then
        (let v' = v\<lparr>playing := True, views := views v + 1\<rparr>
         in (mkOpResult2 SUCCESS
               (''Playing "'' @ title v' @ ''" (views: '' @ to_string (views v') @ '')''),
             v'))
      else (mkOpResult2 ALREADY_EXISTS (''Already playing "'' @ title v @ ''"''), v))\<close>

definition Video_pause :: "Video \<Rightarrow> OpResult \<times> Video" where
  \<open>Video_pause v =
     (if playing v then
        (mkOpResult2 SUCCESS (''Paused "'' @ title v @ ''"''), v\<lparr>playing := False\<rparr>)
      else (mkOpResult2 INVALID_INPUT (''Not playing "'' @ title v @ ''"''), v))\<close>

definition Video_addComment :: "Video \<Rightarrow> string \<Rightarrow> string \<Rightarrow> i64 \<Rightarrow> i64 \<Rightarrow> OpResult \<times> Video \<times> i64" where
  "Video_addComment v user txt now counter =
     (case Comment_ctor user txt now counter of (c, counter') \<Rightarrow>
        (let v' = v\<lparr>comments := comments v @ [c]\<rparr>;
             cid = comment_id (last (comments v'))
         in (mkOpResult SUCCESS (''Comment added by '' @ user) cid, v', counter')))"

text \<open>The loop of \<^verbatim>\<open>Video::likeComment\<close>: the first comment with the id is liked.\<close>

fun Video_likeComment_loop :: "Comment list \<Rightarrow> i64 \<Rightarrow> OpResult \<times> Comment list" where
  "Video_likeComment_loop [] cid = (mkOpResult2 NOT_FOUND ''Comment not found'', [])"
| "Video_likeComment_loop (c # cs) cid =
     (if comment_id c = cid then
        (let c' = like c
         in (mkOpResult2 SUCCESS
               (''Liked comment '' @ to_string cid @ '' (likes='' @ to_string (likes c') @ '')''),
             c' # cs))
      else (case Video_likeComment_loop cs cid of (r, cs') \<Rightarrow> (r, c # cs')))"

definition Video_likeComment :: "Video \<Rightarrow> i64 \<Rightarrow> OpResult \<times> Video" where
  "Video_likeComment v cid =
     (case Video_likeComment_loop (comments v) cid of (r, cs') \<Rightarrow> (r, v\<lparr>comments := cs'\<rparr>))"

text \<open>
  The loop of \<^verbatim>\<open>Video::removeComment\<close>: it stops at the first comment with the id, erases it
  when the requester is its author or the channel owner, and refuses otherwise.
\<close>

fun Video_removeComment_loop :: "Comment list \<Rightarrow> i64 \<Rightarrow> string \<Rightarrow> string \<Rightarrow> OpResult \<times> Comment list" where
  "Video_removeComment_loop [] cid requester channelOwner =
     (mkOpResult2 NOT_FOUND ''Comment not found'', [])"
| "Video_removeComment_loop (c # cs) cid requester channelOwner =
     (if comment_id c = cid then
        (if requester = author c \<or> requester = channelOwner then
           (mkOpResult2 SUCCESS ''Comment removed'', cs)
         else (mkOpResult2 PERMISSION_DENIED ''Permission denied'', c # cs))
      else (case Video_removeComment_loop cs cid requester channelOwner of
              (r, cs') \<Rightarrow> (r, c # cs')))"

definition Video_removeComment :: "Video \<Rightarrow> i64 \<Rightarrow> string \<Rightarrow> string \<Rightarrow> OpResult \<times> Video" where
  "Video_removeComment v cid requester channelOwner =
     (case Video_removeComment_loop (comments v) cid requester channelOwner of
        (r, cs') \<Rightarrow> (r, v\<lparr>comments := cs'\<rparr>))"

text \<open>A sequence of \<^verbatim>\<open>play()\<close> and \<^verbatim>\<open>pause()\<close> calls on one video, with the results.\<close>

datatype playback_call = Play | Pause

fun playback :: "Video \<Rightarrow> playback_call \<Rightarrow> OpResult \<times> Video" where
  "playback v Play = Video_play v"
| "playback v Pause = Video_pause v"

fun playback_all :: "Video \<Rightarrow> playback_call list \<Rightarrow> OpResult list \<times> Video" where
  "playback_all v [] = ([], v)"
| "playback_all v (c # cs) =
     (case playback v c of (r, v') \<Rightarrow>
        (case playback_all v' cs of (rs, v'') \<Rightarrow> (r # rs, v'')))"

text \<open>The number of \<^verbatim>\<open>play()\<close> calls of a sequence that returned Success.\<close>

fun successful_plays :: "playback_call list \<Rightarrow> OpResult list \<Rightarrow> nat" where
  "successful_plays (c # cs) (r # rs) =
     (if c = Play \<and> status r = SUCCESS then 1 else 0) + successful_plays cs rs"
| "successful_plays cs rs = 0"

section \<open>Channel (video.cpp, lines 144-176)\<close>

text \<open>
  \<^verbatim>\<open>unordered_set::insert\<close> returns whether the element is new; \<^verbatim>\<open>erase\<close> returns the
  number of elements removed.
\<close>

definition uset_insert :: "'a \<Rightarrow> 'a fset \<Rightarrow> 'a fset \<times> bool" where
  "uset_insert x s = (finsert x s, x |\<notin>| s)"

definition uset_erase :: "'a \<Rightarrow> 'a fset \<Rightarrow> 'a fset \<times> nat" where
  "uset_erase x s = (s |-| {|x|}, if x |\<in>| s then 1 else 0)"

definition Channel_ctor :: "string \<Rightarrow> string \<Rightarrow> string \<Rightarrow> Channel" where
  "Channel_ctor n ow d =
     \<lparr>channel_name = n, owner = ow, description = d, uploads = [], subscribers = {||}\<rparr>"

text \<open>\<^verbatim>\<open>Logger::info\<close> writes one line; the line is returned with the result.\<close>

definition Logger_info :: "string \<Rightarrow> string" where
  \<open>Logger_info msg = ''[INFO] '' @ msg @ ''\<newline>''\<close>

definition Channel_upload :: "Channel \<Rightarrow> string \<Rightarrow> i32 \<Rightarrow> i64 \<Rightarrow> Video \<times> Channel \<times> i64 \<times> string" where
  \<open>Channel_upload ch t dur counter =
     (case Video_ctor t (channel_name ch) dur counter of (v, counter') \<Rightarrow>
        (v, ch\<lparr>uploads := uploads ch @ [v]\<rparr>, counter',
         Logger_info (''Uploaded "'' @ t @ ''" (id='' @ to_string (video_id v) @
                      '') to channel '' @ channel_name ch)))\<close>

definition Channel_subscribe :: "Channel \<Rightarrow> string \<Rightarrow> OpResult \<times> Channel" where
  "Channel_subscribe ch user =
     (case uset_insert user (subscribers ch) of (s', inserted) \<Rightarrow>
        (if inserted then
           (mkOpResult2 SUCCESS (user @ '' subscribed to '' @ channel_name ch),
            ch\<lparr>subscribers := s'\<rparr>)
         else (mkOpResult2 ALREADY_EXISTS (user @ '' already subscribed''),
               ch\<lparr>subscribers := s'\<rparr>)))"

definition Channel_unsubscribe :: "Channel \<Rightarrow> string \<Rightarrow> OpResult \<times> Channel" where
  "Channel_unsubscribe ch user =
     (case uset_erase user (subscribers ch) of (s', n) \<Rightarrow>
        (if n \<noteq> 0 then
           (mkOpResult2 SUCCESS (user @ '' unsubscribed from '' @ channel_name ch),
            ch\<lparr>subscribers := s'\<rparr>)
         else (mkOpResult2 NOT_FOUND (user @ '' was not subscribed''),
               ch\<lparr>subscribers := s'\<rparr>)))"

section \<open>Playlist (video.cpp, lines 190-215)\<close>

definition Playlist_ctor :: "string \<Rightarrow> Playlist" where
  "Playlist_ctor n = \<lparr>playlist_name = n, videoIds = []\<rparr>"

definition Playlist_add :: "Playlist \<Rightarrow> i64 \<Rightarrow> string \<Rightarrow> Playlist \<times> string" where
  \<open>Playlist_add p videoId videoTitle =
     (p\<lparr>videoIds := videoIds p @ [videoId]\<rparr>,
      Logger_info (''Added "'' @ videoTitle @ ''" to playlist "'' @ playlist_name p @ ''"''))\<close>

text \<open>
  \<^verbatim>\<open>Playlist::show\<close> writes to standard output. The output is the list of the lines
  written, one per output statement, each with its line break. The map argument gives,
  for an id, the video the stored pointer refers to.
\<close>

definition show_header :: "Playlist \<Rightarrow> string" where
  \<open>show_header p = ''Playlist: '' @ playlist_name p @ ''\<newline>''\<close>

definition show_empty :: string where
  \<open>show_empty = ''  (empty)\<newline>''\<close>

definition show_entry :: "nat \<Rightarrow> Video \<Rightarrow> string" where
  \<open>show_entry i v =
     ''  ['' @ digits (i + 1) @ ''] '' @ title v @ '' (id='' @ to_string (video_id v) @
     '')\<newline>''\<close>

text \<open>The loop of \<^verbatim>\<open>show\<close>, over the ids from position \<open>i\<close> on.\<close>

fun show_loop :: "(i64 \<rightharpoonup> Video) \<Rightarrow> i64 list \<Rightarrow> nat \<Rightarrow> string list" where
  "show_loop videoMap [] i = []"
| "show_loop videoMap (x # xs) i =
     (case videoMap x of
        Some v \<Rightarrow> show_entry i v # show_loop videoMap xs (i + 1)
      | None \<Rightarrow> show_loop videoMap xs (i + 1))"

definition Playlist_show :: "Playlist \<Rightarrow> (i64 \<rightharpoonup> Video) \<Rightarrow> string list" where
  "Playlist_show p videoMap =
     show_header p #
     (if videoIds p = [] then [show_empty] else show_loop videoMap (videoIds p) 0)"

section \<open>User (user.h and its implementation)\<close>

text \<open>A \<^verbatim>\<open>Video*\<close> argument is an optional video: \<open>None\<close> is the null pointer.\<close>

definition User_ctor :: "string \<Rightarrow> User" where
  "User_ctor n = \<lparr>username = n, subscriptions = {||}, historyIds = [], playlists = Map.empty\<rparr>"

definition User_watch :: "User \<Rightarrow> Video option \<Rightarrow> OpResult \<times> User \<times> Video option" where
  "User_watch u vp =
     (case vp of
        None \<Rightarrow> (mkOpResult2 NOT_FOUND ''Video not found'', u, None)
      | Some v \<Rightarrow>
          (let u' = u\<lparr>historyIds := historyIds u @ [video_id v]\<rparr>
           in (case Video_play v of (r, v') \<Rightarrow> (r, u', Some v'))))"

definition User_addComment ::
    "User \<Rightarrow> Video option \<Rightarrow> string \<Rightarrow> i64 \<Rightarrow> i64 \<Rightarrow> OpResult \<times> Video option \<times> i64" where
  "User_addComment u vp txt now counter =
     (case vp of
        None \<Rightarrow> (mkOpResult2 NOT_FOUND ''Video not found'', None, counter)
      | Some v \<Rightarrow>
          (case Video_addComment v (username u) txt now counter of
             (r, v', counter') \<Rightarrow> (r, Some v', counter')))"

definition User_likeComment :: "User \<Rightarrow> Video option \<Rightarrow> i64 \<Rightarrow> OpResult \<times> Video option" where
  "User_likeComment u vp cid =
     (case vp of
        None \<Rightarrow> (mkOpResult2 NOT_FOUND ''Video not found'', None)
      | Some v \<Rightarrow> (case Video_likeComment v cid of (r, v') \<Rightarrow> (r, Some v')))"

definition User_createPlaylist :: "User \<Rightarrow> string \<Rightarrow> OpResult \<times> User" where
  \<open>User_createPlaylist u pname =
     (if playlists u pname \<noteq> None then (mkOpResult2 ALREADY_EXISTS ''Playlist exists'', u)
      else (mkOpResult2 SUCCESS (''Created playlist "'' @ pname @ ''"''),
            u\<lparr>playlists := (playlists u)(pname \<mapsto> Playlist_ctor pname)\<rparr>))\<close>

definition User_getPlaylist :: "User \<Rightarrow> string \<Rightarrow> Playlist option" where
  "User_getPlaylist u pname = playlists u pname"

definition User_subscribeChannel :: "User \<Rightarrow> Channel \<Rightarrow> OpResult \<times> User \<times> Channel" where
  "User_subscribeChannel u ch =
     (case uset_insert (channel_name ch) (subscriptions u) of (s', inserted) \<Rightarrow>
        (if inserted then
           (case Channel_subscribe ch (username u) of
              (r, ch') \<Rightarrow> (r, u\<lparr>subscriptions := s'\<rparr>, ch'))
         else (mkOpResult2 ALREADY_EXISTS ''Already subscribed'', u\<lparr>subscriptions := s'\<rparr>, ch)))"

section \<open>Search (main.cpp, lines 190-207)\<close>

text \<open>
  \<^verbatim>\<open>::tolower\<close> in the C locale maps the letters A to Z to a to z and leaves every other
  character as it is; \<^verbatim>\<open>transform\<close> applies it to each character of a string.
\<close>

definition is_upper :: "char \<Rightarrow> bool" where
  "is_upper c = (65 \<le> (of_char c :: nat) \<and> (of_char c :: nat) \<le> 90)"

definition tolower :: "char \<Rightarrow> char" where
  "tolower c = (if is_upper c then char_of ((of_char c :: nat) + 32) else c)"

definition transform_tolower :: "string \<Rightarrow> string" where
  "transform_tolower s = map tolower s"

text \<open>
  \<^verbatim>\<open>string::find\<close> from position 0: the first position where the argument occurs, or
  \<^verbatim>\<open>npos\<close> (here \<open>None\<close>). The empty string occurs at position 0 of every string.
\<close>

fun str_find :: "string \<Rightarrow> string \<Rightarrow> nat option" where
  "str_find [] q = (if q = [] then Some 0 else None)"
| "str_find (c # cs) q =
     (if prefix q (c # cs) then Some 0 else map_option Suc (str_find cs q))"

text \<open>
  The global collection \<^verbatim>\<open>videos\<close> is the list of its (id, video) entries in the order
  the loop visits them. The loop keeps the entries whose lowered title contains the
  lowered query and writes one line for each.
\<close>

fun search_loop :: "(i64 \<times> Video) list \<Rightarrow> string \<Rightarrow> (i64 \<times> Video) list" where
  "search_loop [] low = []"
| "search_loop (p # ps) low =
     (let t = title (snd p); tl = transform_tolower t
      in if str_find tl low \<noteq> None then p # search_loop ps low else search_loop ps low)"

definition search_line :: "i64 \<times> Video \<Rightarrow> string" where
  \<open>search_line p =
     ''  ['' @ to_string (fst p) @ ''] '' @ title (snd p) @ '' (channel: '' @
     uploader (snd p) @ '')\<newline>''\<close>

definition search_results :: "(i64 \<times> Video) list \<Rightarrow> string \<Rightarrow> (i64 \<times> Video) list" where
  "search_results videos q = search_loop videos (transform_tolower q)"

definition search :: "(i64 \<times> Video) list \<Rightarrow> string \<Rightarrow> string list" where
  \<open>search videos q = ''Results:\<newline>'' # map search_line (search_results videos q)\<close>

text \<open>
  The specification's reading of a case-insensitive substring: two characters agree when
  they are equal or are the upper-case and lower-case form of one letter, and the query
  occurs in the title when some segment of the title agrees with it character by
  character.
\<close>

definition eq_ignoring_case :: "char \<Rightarrow> char \<Rightarrow> bool" where
  "eq_ignoring_case a b =
     (a = b \<or> (is_upper a \<and> (of_char b :: nat) = of_char a + 32)
            \<or> (is_upper b \<and> (of_char a :: nat) = of_char b + 32))"

definition contains_ignoring_case :: "string \<Rightarrow> string \<Rightarrow> bool" where
  "contains_ignoring_case t q =
     (\<exists>p m s. t = p @ m @ s \<and> list_all2 eq_ignoring_case q m)"

text \<open>The three videos that \<^verbatim>\<open>main\<close> uploads at start (lines 48-59), in upload order.\<close>

definition main_videos :: "(i64 \<times> Video) list" where
  "main_videos =
     (case Channel_upload (Channel_ctor ''KavyaTech'' ''system'' ''C++ tutorials'')
             ''C++ OOP Deep Dive'' 900 IdGen_init of
        (v1, kt, c1, l1) \<Rightarrow>
     (case Channel_upload kt ''Data Structures Overview'' 720 c1 of
        (v2, kt', c2, l2) \<Rightarrow>
     (case Channel_upload (Channel_ctor ''IndieMusic'' ''system'' ''Music channel'')
             ''Chill Loops'' 300 c2 of
        (v3, im, c3, l3) \<Rightarrow>
     [(video_id v1, v1), (video_id v2, v2), (video_id v3, v3)])))"

section \<open>Histories of constructions and deletions\<close>

text \<open>
  The identifiers a process mints come from the constructors of \<^verbatim>\<open>Video\<close> and
  \<^verbatim>\<open>Comment\<close>. An event constructs a video, adds a comment to the video at a position
  of the collection, or asks to remove a comment there. The state is the counter and the
  videos; each event returns the identifiers it minted.
\<close>

datatype event =
    Upload string string i32
  | AddComment nat string string i64
  | RemoveComment nat i64 string string

fun apply_event :: "event \<Rightarrow> i64 \<times> Video list \<Rightarrow> i64 list \<times> i64 \<times> Video list" where
  "apply_event (Upload t u d) (counter, vs) =
     (case Video_ctor t u d counter of (v, counter') \<Rightarrow>
        ([video_id v], counter', vs @ [v]))"
| "apply_event (AddComment k user txt now) (counter, vs) =
     (if k < length vs then
        (case Video_addComment (vs ! k) user txt now counter of
           (r, v', counter') \<Rightarrow> ([res_id r], counter', vs[k := v']))
      else ([], counter, vs))"
| "apply_event (RemoveComment k cid requester channelOwner) (counter, vs) =
     (if k < length vs then
        (case Video_removeComment (vs ! k) cid requester channelOwner of
           (r, v') \<Rightarrow> ([], counter, vs[k := v']))
      else ([], counter, vs))"

fun run_events :: "event list \<Rightarrow> i64 \<times> Video list \<Rightarrow> i64 list \<times> i64 \<times> Video list" where
  "run_events [] st = ([], st)"
| "run_events (e # es) st =
     (case apply_event e st of (ids, st') \<Rightarrow>
        (case run_events es st' of (ids', st'') \<Rightarrow> (ids @ ids', st'')))"

text \<open>The identifiers issued, in order, by a history that starts with the process.\<close>

definition issued :: "event list \<Rightarrow> i64 list" where
  "issued es = fst (run_events es (IdGen_init, []))"

text \<open>
  The videos that exist after such a history, and the identifiers of all videos and
  comments that exist in a collection of videos.
\<close>

definition existing :: "event list \<Rightarrow> Video list" where
  "existing es = snd (snd (run_events es (IdGen_init, [])))"

definition entity_ids :: "Video \<Rightarrow> i64 list" where
  "entity_ids v = video_id v # map comment_id (comments v)"

definition live_ids :: "Video list \<Rightarrow> i64 list" where
  "live_ids vs = concat (map entity_ids vs)"

section \<open>The running example\<close>

text \<open>
  The video of the specification's scenario: the first object constructed in a process,
  titled V1, uploaded to channel C with duration 100.
\<close>

definition video1 :: Video where
  "video1 = fst (Video_ctor ''V1'' ''C'' 100 IdGen_init)"

lemmas video1_eval = video1_def Video_ctor_def IdGen_next_def IdGen_init_def Video_play_def
  Video_pause_def Let_def mkOpResult2_def mkOpResult_def to_string_def

text \<open>The scenario continues: alice adds the comment "hi", which gets the id 2.\<close>

definition video1c :: Video where
  "video1c = fst (snd (Video_addComment video1 ''alice'' ''hi'' 1000 1))"

lemmas video1c_eval = video1c_def Video_addComment_def Comment_ctor_def Video_removeComment_def
  Video_likeComment_def video1_eval

text \<open>A user, and the user after watching the video; the video after one \<^verbatim>\<open>play()\<close>.\<close>

definition alice :: User where
  "alice = User_ctor ''alice''"

lemmas alice_eval = alice_def User_ctor_def User_watch_def video1_eval

definition alice_watched :: User where
  "alice_watched = fst (snd (User_watch alice (Some video1)))"

definition video1_playing :: Video where
  "video1_playing = snd (Video_play video1)"

text \<open>A channel without subscribers.\<close>

definition channelC :: Channel where
  "channelC = Channel_ctor ''C'' ''alice'' ''''"

lemmas channel_eval = channelC_def Channel_ctor_def Channel_subscribe_def Channel_unsubscribe_def
  uset_insert_def uset_erase_def mkOpResult2_def mkOpResult_def

text \<open>A playlist naming the video twice, between two ids that no video has.\<close>

definition playlist1 :: Playlist where
  "playlist1 = \<lparr>playlist_name = ''mix'', videoIds = [7, 1, 9, 1]\<rparr>"

lemmas show_eval = Playlist_show_def show_header_def show_empty_def show_entry_def
  playlist1_def Playlist_ctor_def to_string_def video1_eval

text \<open>
  A history: an upload, a comment, its removal, another comment, a comment on a video
  that does not exist, and a second upload.
\<close>

definition history1 :: "event list" where
  "history1 =
     [Upload ''V1'' ''C'' 100, AddComment 0 ''alice'' ''hi'' 1000,
      RemoveComment 0 2 ''alice'' ''alice'', AddComment 0 ''bob'' ''yo'' 1001,
      AddComment 5 ''bob'' ''lost'' 1002, Upload ''V2'' ''C'' 60]"

lemmas history_eval = issued_def history1_def Video_ctor_def IdGen_next_def IdGen_init_def
  Video_addComment_def Comment_ctor_def Video_removeComment_def Let_def mkOpResult2_def
  mkOpResult_def

section \<open>Shared facts\<close>

text \<open>Adding a natural number to a word without leaving the signed range.\<close>

lemma sint_add_of_nat:
  fixes a :: "'a::len word"
  assumes "sint a + int n < 2 ^ (LENGTH('a) - 1)"
  shows "sint (a + of_nat n) = sint a + int n"
proof -
  have lo: "- (2 ^ (LENGTH('a) - 1)) \<le> sint a" by (rule sint_ge)
  have "a + of_nat n = word_of_int (sint a + int n)"
    by simp
  then have "sint (a + of_nat n) = signed_take_bit (LENGTH('a) - 1) (sint a + int n)"
    by (simp only: sint_sbintrunc')
  also have "\<dots> = sint a + int n"
    using lo assms by (simp add: signed_take_bit_int_eq_self)
  finally show ?thesis .
qed

section \<open>Playback: \<^verbatim>\<open>Video::play\<close> and \<^verbatim>\<open>Video::pause\<close>\<close>

lemma play_views_signed:
  "\<not> playing v \<Longrightarrow> sint (views v) < 2 ^ 63 - 1 \<Longrightarrow> sint (views (snd (Video_play v))) = sint (views v) + 1"
  using sint_add_of_nat [of "views v" 1] by (simp add: Video_play_def Let_def)

lemma playback_all_length: "length (fst (playback_all v cs)) = length cs"
proof (induction cs arbitrary: v)
  case Nil
  show ?case by simp
next
  case (Cons c cs)
  obtain r v' where s: "playback v c = (r, v')" by (cases "playback v c")
  obtain rs v'' where t: "playback_all v' cs = (rs, v'')" by (cases "playback_all v' cs")
  show ?case using Cons.IH [of v'] s t by simp
qed

lemma playback_views:
  "views (snd (playback v c)) =
     views v + (if c = Play \<and> status (fst (playback v c)) = SUCCESS then 1 else 0)"
  by (cases c) (auto simp: Video_play_def Video_pause_def Let_def mkOpResult2_def mkOpResult_def)

lemma playback_all_views:
  "views (snd (playback_all v cs)) =
     views v + of_nat (successful_plays cs (fst (playback_all v cs)))"
proof (induction cs arbitrary: v)
  case Nil
  show ?case by simp
next
  case (Cons c cs)
  obtain r v' where s: "playback v c = (r, v')" by (cases "playback v c")
  obtain rs v'' where t: "playback_all v' cs = (rs, v'')" by (cases "playback_all v' cs")
  have "views v' = views v + (if c = Play \<and> status r = SUCCESS then 1 else 0)"
    using playback_views [of v c] s by simp
  moreover have "views v'' = views v' + of_nat (successful_plays cs rs)"
    using Cons.IH [of v'] t by simp
  ultimately show ?case using s t by simp
qed

text \<open>
  C1. \<^verbatim>\<open>play()\<close> on a video that is not playing sets the playing flag, adds 1 to the view
  count (64-bit addition; below the largest signed value the signed count grows by 1) and
  returns Success; on a playing video it returns AlreadyExists and changes nothing. Over
  any sequence of \<^verbatim>\<open>play()\<close> and \<^verbatim>\<open>pause()\<close> calls the view count grows by the number of
  \<^verbatim>\<open>play()\<close> calls that returned Success. A second \<^verbatim>\<open>play()\<close> right after a first is
  rejected, and the two together add exactly one view to a video that was not playing.
\<close>

theorem play_spec:
  "(\<not> playing v \<longrightarrow>
      snd (Video_play v) = v\<lparr>playing := True, views := views v + 1\<rparr> \<and>
      status (fst (Video_play v)) = SUCCESS \<and>
      (sint (views v) < 2 ^ 63 - 1 \<longrightarrow> sint (views (snd (Video_play v))) = sint (views v) + 1)) \<and>
   (playing v \<longrightarrow> status (fst (Video_play v)) = ALREADY_EXISTS \<and> snd (Video_play v) = v) \<and>
   (status (fst (Video_play v)) \<noteq> SUCCESS \<longrightarrow> snd (Video_play v) = v) \<and>
   (isSuccess (fst (Video_play v)) \<longleftrightarrow> \<not> playing v) \<and>
   length (fst (playback_all v cs)) = length cs \<and>
   views (snd (playback_all v cs)) =
     views v + of_nat (successful_plays cs (fst (playback_all v cs))) \<and>
   (sint (views v) + int (successful_plays cs (fst (playback_all v cs))) < 2 ^ 63 \<longrightarrow>
      sint (views (snd (playback_all v cs))) =
        sint (views v) + int (successful_plays cs (fst (playback_all v cs)))) \<and>
   status (fst (Video_play (snd (Video_play v)))) = ALREADY_EXISTS \<and>
   snd (Video_play (snd (Video_play v))) = snd (Video_play v) \<and>
   (\<not> playing v \<longrightarrow> views (snd (playback_all v [Play, Play])) = views v + 1)"
proof -
  have a: "\<not> playing v \<longrightarrow>
      snd (Video_play v) = v\<lparr>playing := True, views := views v + 1\<rparr> \<and>
      status (fst (Video_play v)) = SUCCESS \<and>
      (sint (views v) < 2 ^ 63 - 1 \<longrightarrow> sint (views (snd (Video_play v))) = sint (views v) + 1)"
    using play_views_signed [of v]
    by (simp add: Video_play_def Let_def mkOpResult2_def mkOpResult_def)
  have b: "playing v \<longrightarrow> status (fst (Video_play v)) = ALREADY_EXISTS \<and> snd (Video_play v) = v"
    by (simp add: Video_play_def mkOpResult2_def mkOpResult_def)
  have c: "status (fst (Video_play v)) \<noteq> SUCCESS \<longrightarrow> snd (Video_play v) = v"
    by (simp add: Video_play_def Let_def mkOpResult2_def mkOpResult_def)
  have c': "isSuccess (fst (Video_play v)) \<longleftrightarrow> \<not> playing v"
    by (simp add: Video_play_def Let_def mkOpResult2_def mkOpResult_def isSuccess_def)
  have d: "sint (views v) + int (successful_plays cs (fst (playback_all v cs))) < 2 ^ 63 \<longrightarrow>
      sint (views (snd (playback_all v cs))) =
        sint (views v) + int (successful_plays cs (fst (playback_all v cs)))"
    using sint_add_of_nat [of "views v" "successful_plays cs (fst (playback_all v cs))"]
    by (simp add: playback_all_views [of v cs])
  have e: "status (fst (Video_play (snd (Video_play v)))) = ALREADY_EXISTS \<and>
      snd (Video_play (snd (Video_play v))) = snd (Video_play v)"
    by (simp add: Video_play_def Let_def mkOpResult2_def mkOpResult_def)
  have f: "\<not> playing v \<longrightarrow> views (snd (playback_all v [Play, Play])) = views v + 1"
    by (simp add: Video_play_def Let_def mkOpResult2_def mkOpResult_def)
  show ?thesis
    using a b c c' d e f playback_all_length [of v cs] playback_all_views [of v cs] by blast
qed

theorem play_spec_witness:
  \<open>\<not> playing video1 \<and> status (fst (Video_play video1)) = SUCCESS \<and>
   message (fst (Video_play video1)) = ''Playing "V1" (views: 1)'' \<and>
   views (snd (Video_play video1)) = 1 \<and>
   playing (snd (Video_play video1)) \<and>
   status (fst (Video_play (snd (Video_play video1)))) = ALREADY_EXISTS \<and>
   views (snd (Video_play (snd (Video_play video1)))) = 1 \<and>
   map status (fst (playback_all video1 [Play, Play, Pause, Pause, Play])) =
     [SUCCESS, ALREADY_EXISTS, SUCCESS, INVALID_INPUT, SUCCESS] \<and>
   sint (views (snd (playback_all video1 [Play, Play, Pause, Pause, Play]))) = 2\<close>
  using play_spec [of video1 "[Play, Play, Pause, Pause, Play]"]
    play_spec [of "snd (Video_play video1)" "[]"]
  by (simp add: video1_eval)


text \<open>
  C7. A constructed video is not playing. \<^verbatim>\<open>pause()\<close> on a playing video clears the flag
  and returns Success; on a video that is not playing it returns InvalidInput. Both
  self-transitions are rejected and leave the video, its flag and its view count as they
  were; \<^verbatim>\<open>play()\<close> leads from not playing to playing.
\<close>

theorem pause_spec:
  "\<not> playing (fst (Video_ctor t u d counter)) \<and>
   (playing v \<longrightarrow>
      status (fst (Video_pause v)) = SUCCESS \<and>
      snd (Video_pause v) = v\<lparr>playing := False\<rparr>) \<and>
   (\<not> playing v \<longrightarrow>
      status (fst (Video_pause v)) = INVALID_INPUT \<and> snd (Video_pause v) = v) \<and>
   (playing v \<longrightarrow>
      status (fst (Video_play v)) \<noteq> SUCCESS \<and> snd (Video_play v) = v) \<and>
   (\<not> playing v \<longrightarrow> playing (snd (Video_play v))) \<and>
   views (snd (Video_pause v)) = views v"
  by (simp add: Video_ctor_def IdGen_next_def Video_pause_def Video_play_def Let_def
      mkOpResult2_def mkOpResult_def)

theorem pause_spec_witness:
  \<open>\<not> playing video1 \<and>
   status (fst (Video_pause video1)) = INVALID_INPUT \<and>
   message (fst (Video_pause video1)) = ''Not playing "V1"'' \<and>
   snd (Video_pause video1) = video1 \<and>
   playing (snd (Video_play video1)) \<and>
   status (fst (Video_pause (snd (Video_play video1)))) = SUCCESS \<and>
   \<not> playing (snd (Video_pause (snd (Video_play video1)))) \<and>
   views (snd (Video_pause (snd (Video_play video1)))) = 1 \<and>
   status (fst (Video_play (snd (Video_play video1)))) = ALREADY_EXISTS\<close>
  using pause_spec [of "''V1''" "''C''" 100 IdGen_init video1]
    pause_spec [of "''V1''" "''C''" 100 IdGen_init "snd (Video_play video1)"]
  by (simp add: video1_eval)


section \<open>\<^verbatim>\<open>Video::removeComment\<close>\<close>

lemma removeComment_loop_find:
  "Video_removeComment_loop cs cid rq ow =
     (case find (\<lambda>c. comment_id c = cid) cs of
        None \<Rightarrow> (mkOpResult2 NOT_FOUND ''Comment not found'', cs)
      | Some c \<Rightarrow>
          if rq = author c \<or> rq = ow
          then (mkOpResult2 SUCCESS ''Comment removed'', remove1 c cs)
          else (mkOpResult2 PERMISSION_DENIED ''Permission denied'', cs))"
proof (induction cs)
  case Nil
  show ?case by simp
next
  case (Cons x xs)
  show ?case
  proof (cases "comment_id x = cid")
    case True
    then show ?thesis by simp
  next
    case False
    then have "\<And>c. find (\<lambda>c. comment_id c = cid) xs = Some c \<Longrightarrow> x \<noteq> c"
      by (auto simp: find_Some_iff)
    with False Cons.IH show ?thesis
      by (auto split: option.splits)
  qed
qed

lemma find_id_distinct:
  "distinct (map comment_id cs) \<Longrightarrow> find (\<lambda>c. comment_id c = cid) cs = Some c \<Longrightarrow>
     remove1 c cs = filter (\<lambda>d. comment_id d \<noteq> cid) cs \<and>
     (\<forall>d\<in>set cs. comment_id d = cid \<longrightarrow> d = c)"
proof (induction cs)
  case Nil
  then show ?case by simp
next
  case (Cons x xs)
  show ?case
  proof (cases "comment_id x = cid")
    case True
    with Cons.prems have xc: "x = c" by simp
    from Cons.prems(1) have "comment_id x \<notin> comment_id ` set xs" by simp
    then have "\<forall>d\<in>set xs. comment_id d \<noteq> comment_id x" by (metis imageI)
    then have no: "\<forall>d\<in>set xs. comment_id d \<noteq> cid" by (simp only: True)
    then have "filter (\<lambda>d. comment_id d \<noteq> cid) xs = xs" by (simp add: filter_id_conv)
    with True xc no show ?thesis by simp
  next
    case False
    with Cons.prems have f: "find (\<lambda>c. comment_id c = cid) xs = Some c" by simp
    then have "comment_id c = cid" by (auto simp: find_Some_iff)
    with False have "x \<noteq> c" by auto
    with False Cons.IH [OF _ f] Cons.prems(1) show ?thesis by simp
  qed
qed

lemma find_id_None: "find (\<lambda>c. comment_id c = cid) cs = None \<longleftrightarrow> cid \<notin> comment_id ` set cs"
  by (auto simp: find_None_iff)

lemma find_id_Some: "find (\<lambda>c. comment_id c = cid) cs = Some c \<Longrightarrow> c \<in> set cs \<and> comment_id c = cid"
  by (auto simp: find_Some_iff)

text \<open>
  C2. \<^verbatim>\<open>removeComment\<close> looks at the first comment with the given id. Without such a
  comment it returns NotFound and the video is unchanged; when the requester is that
  comment's author or the channel owner it erases that comment and returns Success;
  otherwise it returns PermissionDenied and the video is unchanged. With pairwise
  distinct comment ids, Success is returned exactly when a comment with the id exists
  whose author is the requester, or the requester is the channel owner, and then exactly
  the comments with another id remain, in their order.
\<close>

theorem removeComment_spec:
  "(case find (\<lambda>c. comment_id c = cid) (comments v) of
      None \<Rightarrow>
        status (fst (Video_removeComment v cid requester channelOwner)) = NOT_FOUND \<and>
        snd (Video_removeComment v cid requester channelOwner) = v
    | Some c \<Rightarrow>
        if requester = author c \<or> requester = channelOwner
        then status (fst (Video_removeComment v cid requester channelOwner)) = SUCCESS \<and>
             snd (Video_removeComment v cid requester channelOwner) =
               v\<lparr>comments := remove1 c (comments v)\<rparr>
        else status (fst (Video_removeComment v cid requester channelOwner)) = PERMISSION_DENIED \<and>
             snd (Video_removeComment v cid requester channelOwner) = v) \<and>
   (distinct (map comment_id (comments v)) \<longrightarrow>
      (status (fst (Video_removeComment v cid requester channelOwner)) = SUCCESS \<longleftrightarrow>
         (\<exists>c\<in>set (comments v). comment_id c = cid \<and>
            (requester = author c \<or> requester = channelOwner))) \<and>
      (status (fst (Video_removeComment v cid requester channelOwner)) = SUCCESS \<longrightarrow>
         snd (Video_removeComment v cid requester channelOwner) =
           v\<lparr>comments := filter (\<lambda>d. comment_id d \<noteq> cid) (comments v)\<rparr>) \<and>
      (status (fst (Video_removeComment v cid requester channelOwner)) = PERMISSION_DENIED \<longleftrightarrow>
         (\<exists>c\<in>set (comments v). comment_id c = cid \<and>
            requester \<noteq> author c \<and> requester \<noteq> channelOwner))) \<and>
   (status (fst (Video_removeComment v cid requester channelOwner)) = NOT_FOUND \<longleftrightarrow>
      cid \<notin> comment_id ` set (comments v)) \<and>
   (status (fst (Video_removeComment v cid requester channelOwner)) \<noteq> SUCCESS \<longrightarrow>
      snd (Video_removeComment v cid requester channelOwner) = v) \<and>
   status (fst (Video_removeComment v cid requester channelOwner)) \<in>
     {SUCCESS, PERMISSION_DENIED, NOT_FOUND}"
proof -
  let ?R = "Video_removeComment v cid requester channelOwner"
  have "?thesis" if None: "find (\<lambda>c. comment_id c = cid) (comments v) = None"
  proof -
    have nf: "cid \<notin> comment_id ` set (comments v)" using None by (simp add: find_id_None)
    then have nf': "\<forall>c\<in>set (comments v). comment_id c \<noteq> cid" by blast
    have "?R = (mkOpResult2 NOT_FOUND ''Comment not found'', v)"
      using None by (simp add: Video_removeComment_def removeComment_loop_find)
    then have st: "status (fst ?R) = NOT_FOUND" and sv: "snd ?R = v"
      by (simp_all add: mkOpResult2_def mkOpResult_def)
    show ?thesis using nf nf' by (simp add: None st sv)
  qed
  moreover have "?thesis"
    if Some: "find (\<lambda>c. comment_id c = cid) (comments v) = Some c"
      and ok: "requester = author c \<or> requester = channelOwner" for c
  proof -
    have mem: "c \<in> set (comments v)" "comment_id c = cid"
      using find_id_Some [OF Some] by simp_all
    have "?R = (mkOpResult2 SUCCESS ''Comment removed'', v\<lparr>comments := remove1 c (comments v)\<rparr>)"
      using Some ok by (simp add: Video_removeComment_def removeComment_loop_find)
    then have st: "status (fst ?R) = SUCCESS"
      and sv: "snd ?R = v\<lparr>comments := remove1 c (comments v)\<rparr>"
      by (simp_all add: mkOpResult2_def mkOpResult_def)
    have ex: "\<exists>c\<in>set (comments v). comment_id c = cid \<and>
        (requester = author c \<or> requester = channelOwner)"
      using mem ok by blast
    have inimg: "cid \<in> comment_id ` set (comments v)" using mem by force
    have d: "remove1 c (comments v) = filter (\<lambda>d. comment_id d \<noteq> cid) (comments v) \<and>
        \<not> (\<exists>c\<in>set (comments v). comment_id c = cid \<and>
              requester \<noteq> author c \<and> requester \<noteq> channelOwner)"
      if "distinct (map comment_id (comments v))"
      using find_id_distinct [OF that Some] ok by blast
    show ?thesis using ok ex inimg d by (simp add: Some st sv)
  qed
  moreover have "?thesis"
    if Some: "find (\<lambda>c. comment_id c = cid) (comments v) = Some c"
      and no: "\<not> (requester = author c \<or> requester = channelOwner)" for c
  proof -
    have mem: "c \<in> set (comments v)" "comment_id c = cid"
      using find_id_Some [OF Some] by simp_all
    have "?R = (mkOpResult2 PERMISSION_DENIED ''Permission denied'', v)"
      using Some no by (simp add: Video_removeComment_def removeComment_loop_find)
    then have st: "status (fst ?R) = PERMISSION_DENIED" and sv: "snd ?R = v"
      by (simp_all add: mkOpResult2_def mkOpResult_def)
    have ex: "\<exists>c\<in>set (comments v). comment_id c = cid \<and>
        requester \<noteq> author c \<and> requester \<noteq> channelOwner"
      using mem no by blast
    have inimg: "cid \<in> comment_id ` set (comments v)" using mem by force
    have d: "\<not> (\<exists>c\<in>set (comments v). comment_id c = cid \<and>
              (requester = author c \<or> requester = channelOwner))"
      if "distinct (map comment_id (comments v))"
      using find_id_distinct [OF that Some] no by blast
    show ?thesis using no ex inimg d by (simp add: Some st sv)
  qed
  ultimately show ?thesis
    by (cases "find (\<lambda>c. comment_id c = cid) (comments v)") blast+
qed

text \<open>The scenario: bob may not remove the comment of alice, alice may.\<close>

theorem removeComment_spec_witness:
  "comments video1c =
     [\<lparr>comment_id = 2, author = ''alice'', comment_text = ''hi'', likes = 0, ts = 1000\<rparr>] \<and>
   distinct (map comment_id (comments video1c)) \<and>
   status (fst (Video_removeComment video1c 2 ''bob'' ''alice'')) = PERMISSION_DENIED \<and>
   snd (Video_removeComment video1c 2 ''bob'' ''alice'') = video1c \<and>
   status (fst (Video_removeComment video1c 2 ''alice'' ''alice'')) = SUCCESS \<and>
   comments (snd (Video_removeComment video1c 2 ''alice'' ''alice'')) = [] \<and>
   status (fst (Video_removeComment video1c 2 ''carol'' ''carol'')) = SUCCESS \<and>
   status (fst (Video_removeComment video1c 7 ''alice'' ''alice'')) = NOT_FOUND \<and>
   snd (Video_removeComment video1c 7 ''alice'' ''alice'') = video1c \<and>
   status (fst (Video_likeComment (snd (Video_removeComment video1c 2 ''alice'' ''alice'')) 2))
     = NOT_FOUND"
  using removeComment_spec [where cid = 2 and v = video1c and requester = "''bob''" and channelOwner = "''alice''"]
    removeComment_spec [where cid = 2 and v = video1c and requester = "''alice''" and channelOwner = "''alice''"]
    removeComment_spec [where cid = 2 and v = video1c and requester = "''carol''" and channelOwner = "''carol''"]
    removeComment_spec [where cid = 7 and v = video1c and requester = "''alice''" and channelOwner = "''alice''"]
  by (simp add: video1c_eval)

section \<open>\<^verbatim>\<open>IdGen::next\<close> over histories\<close>

lemma apply_event_mints:
  "apply_event e (c, vs) = (ids, c', vs') \<Longrightarrow>
     (ids = [] \<and> c' = c) \<or> (ids = [c + 1] \<and> c' = c + 1)"
  by (cases e)
    (auto simp: Video_ctor_def IdGen_next_def Video_addComment_def Comment_ctor_def Let_def
      mkOpResult_def split: if_splits prod.splits)

lemma run_events_mints:
  "run_events es (c, vs) = (ids, c', vs') \<Longrightarrow>
     ids = map (\<lambda>i. c + 1 + of_nat i) [0..<length ids] \<and> c' = c + of_nat (length ids)"
proof (induction es arbitrary: c vs ids c' vs')
  case Nil
  then show ?case by simp
next
  case (Cons e es)
  obtain ids1 c1 vs1 where a: "apply_event e (c, vs) = (ids1, c1, vs1)"
    by (cases "apply_event e (c, vs)") auto
  obtain ids2 c2 vs2 where r: "run_events es (c1, vs1) = (ids2, c2, vs2)"
    by (cases "run_events es (c1, vs1)") auto
  from Cons.prems a r have eq: "ids = ids1 @ ids2" "c' = c2" by simp_all
  note ih = Cons.IH [OF r]
  from apply_event_mints [OF a] show ?case
  proof
    assume "ids1 = [] \<and> c1 = c"
    with ih eq show ?thesis by simp
  next
    assume h: "ids1 = [c + 1] \<and> c1 = c + 1"
    have "map (\<lambda>i. c + 1 + of_nat i) [0..<Suc (length ids2)] =
        (c + 1) # map (\<lambda>i. c + 1 + 1 + of_nat i) [0..<length ids2]"
      by (simp add: map_upt_Suc add.assoc del: upt_Suc)
    with ih eq h show ?thesis by (simp add: add.assoc del: upt_Suc)
  qed
qed

lemma sint_minted:
  assumes "int m < 2 ^ 63" and "i < m"
  shows "sint (IdGen_init + 1 + of_nat i :: i64) = int i + 1"
proof -
  have "IdGen_init + 1 + of_nat i = (0 :: i64) + of_nat (Suc i)"
    by (simp add: IdGen_init_def)
  moreover have "sint ((0 :: i64) + of_nat (Suc i)) = sint (0 :: i64) + int (Suc i)"
    using assms by (intro sint_add_of_nat) simp
  ultimately show ?thesis by simp
qed


lemma minted_strictly_increasing:
  assumes "int m < 2 ^ 63"
  shows "sorted_wrt (<) (map sint (map (\<lambda>i. IdGen_init + 1 + of_nat i :: i64) [0..<m]))"
proof -
  have eq: "map sint (map (\<lambda>i. IdGen_init + 1 + of_nat i :: i64) [0..<m]) =
      map (\<lambda>i. int i + 1) [0..<m]"
    using sint_minted [OF assms] by simp
  have so: "sorted_wrt (<) (map (\<lambda>i. int i + 1) [0..<m])"
    by (simp add: sorted_wrt_iff_nth_less)
  show ?thesis unfolding eq by (rule so)
qed

lemma issued_closed_form:
  "issued es = map (\<lambda>i. IdGen_init + 1 + of_nat i) [0..<length (issued es)]"
proof -
  obtain ids c vs where r: "run_events es (IdGen_init, []) = (ids, c, vs)"
    by (cases "run_events es (IdGen_init, [])") auto
  from run_events_mints [OF r] r show ?thesis by (simp add: issued_def)
qed

text \<open>The identifiers of the objects that exist are among those issued, each at most once.\<close>

lemma live_ids_update:
  "k < length vs \<Longrightarrow>
     mset (live_ids (vs[k := x])) + mset (entity_ids (vs ! k)) =
     mset (live_ids vs) + mset (entity_ids x)"
proof (induction vs arbitrary: k)
  case Nil
  then show ?case by simp
next
  case (Cons v vs)
  show ?case
  proof (cases k)
    case 0
    then show ?thesis by (simp add: live_ids_def)
  next
    case (Suc j)
    with Cons.prems have "j < length vs" by simp
    from Cons.IH [OF this] Suc show ?thesis by (simp add: live_ids_def)
  qed
qed

lemma mset_sub_trans_add:
  assumes "A \<subseteq># B + C" and "B \<subseteq># D + E"
  shows "A \<subseteq># D + (E + C)"
  unfolding subseteq_mset_def
proof
  fix a
  from assms have "count A a \<le> count B a + count C a" "count B a \<le> count D a + count E a"
    by (simp_all add: subseteq_mset_def)
  then show "count A a \<le> count (D + (E + C)) a" by simp
qed

lemma mset_sub_cancel:
  assumes "X + P = L + Q" and "Q \<subseteq># P"
  shows "X \<subseteq># L"
  unfolding subseteq_mset_def
proof
  fix a
  from assms(1) have "count (X + P) a = count (L + Q) a" by simp
  moreover from assms(2) have "count Q a \<le> count P a" by (simp add: subseteq_mset_def)
  ultimately show "count X a \<le> count L a" by simp
qed

lemma removeComment_ids:
  "mset (entity_ids (snd (Video_removeComment v cid rq ow))) \<subseteq># mset (entity_ids v)"
proof -
  have h: "image_mset comment_id (mset cs - {#c#}) \<subseteq># image_mset comment_id (mset cs)"
    for c cs
    by (rule image_mset_subseteq_mono) simp
  show ?thesis
    by (simp add: Video_removeComment_def removeComment_loop_find entity_ids_def h
        split: option.splits)
qed

lemma addComment_ids:
  "Video_addComment v user body now c = (r, v', c') \<Longrightarrow>
     mset (entity_ids v') = mset (entity_ids v) + {#res_id r#}"
  by (auto simp: Video_addComment_def Comment_ctor_def IdGen_next_def Let_def mkOpResult_def
      entity_ids_def)

lemma apply_event_live:
  assumes "apply_event e (c, vs) = (ids, c', vs')"
  shows "mset (live_ids vs') \<subseteq># mset (live_ids vs) + mset ids"
proof (cases e)
  case (Upload t u d)
  with assms show ?thesis
    by (auto simp: Video_ctor_def IdGen_next_def live_ids_def entity_ids_def)
next
  case (AddComment k user body now)
  show ?thesis
  proof (cases "k < length vs")
    case True
    obtain r v' c1 where a: "Video_addComment (vs ! k) user body now c = (r, v', c1)"
      by (cases "Video_addComment (vs ! k) user body now c") auto
    with assms AddComment True have eq: "ids = [res_id r]" "vs' = vs[k := v']" by simp_all
    from live_ids_update [OF True, of v'] addComment_ids [OF a]
    have "mset (live_ids vs') = mset (live_ids vs) + mset ids"
      by (simp add: eq)
    then show ?thesis by simp
  next
    case False
    with assms AddComment show ?thesis by simp
  qed
next
  case (RemoveComment k cid rq ow)
  show ?thesis
  proof (cases "k < length vs")
    case True
    obtain r v' where a: "Video_removeComment (vs ! k) cid rq ow = (r, v')"
      by (cases "Video_removeComment (vs ! k) cid rq ow")
    with assms RemoveComment True have eq: "ids = []" "vs' = vs[k := v']" by simp_all
    from removeComment_ids [of "vs ! k" cid rq ow] a
    have s: "mset (entity_ids v') \<subseteq># mset (entity_ids (vs ! k))" by simp
    from live_ids_update [OF True, of v']
    have "mset (live_ids vs') + mset (entity_ids (vs ! k)) =
        mset (live_ids vs) + mset (entity_ids v')" by (simp add: eq)
    then have "mset (live_ids vs') \<subseteq># mset (live_ids vs)"
      using s by (rule mset_sub_cancel)
    then show ?thesis by (simp add: eq)
  next
    case False
    with assms RemoveComment show ?thesis by simp
  qed
qed

lemma run_events_live:
  "run_events es (c, vs) = (ids, c', vs') \<Longrightarrow>
     mset (live_ids vs') \<subseteq># mset (live_ids vs) + mset ids"
proof (induction es arbitrary: c vs ids c' vs')
  case Nil
  then show ?case by simp
next
  case (Cons e es)
  obtain ids1 c1 vs1 where a: "apply_event e (c, vs) = (ids1, c1, vs1)"
    by (cases "apply_event e (c, vs)") auto
  obtain ids2 c2 vs2 where r: "run_events es (c1, vs1) = (ids2, c2, vs2)"
    by (cases "run_events es (c1, vs1)") auto
  from Cons.prems a r have eq: "ids = ids1 @ ids2" "vs' = vs2" by simp_all
  from Cons.IH [OF r] apply_event_live [OF a]
  have "mset (live_ids vs2) \<subseteq># mset (live_ids vs) + (mset ids1 + mset ids2)"
    by (rule mset_sub_trans_add)
  then show ?case by (simp add: eq)
qed

lemma distinct_sub_mset:
  assumes "mset xs \<subseteq># mset ys" and "distinct ys"
  shows "distinct xs \<and> set xs \<subseteq> set ys"
proof -
  have sub: "set xs \<subseteq> set ys"
    using set_mset_mono [OF assms(1)] by simp
  have "count (mset xs) a = (if a \<in> set xs then 1 else 0)" for a
  proof (cases "a \<in> set xs")
    case True
    then have "1 \<le> count (mset xs) a" by (simp add: Suc_le_eq)
    moreover have "count (mset xs) a \<le> count (mset ys) a"
      using assms(1) by (simp add: subseteq_mset_def)
    moreover have "count (mset ys) a \<le> 1"
      using assms(2) by (simp add: distinct_count_atmost_1)
    ultimately have "count (mset xs) a = 1" by linarith
    with True show ?thesis by (simp only: if_True)
  next
    case False
    then show ?thesis by (simp add: count_mset_0_iff)
  qed
  then have "distinct xs" by (simp add: distinct_count_atmost_1)
  with sub show ?thesis by simp
qed


text \<open>Up to \<open>2 ^ 64\<close> identifiers the 64-bit values issued do not repeat.\<close>

lemma minted_distinct:
  assumes "m \<le> 2 ^ 64"
  shows "distinct (map (\<lambda>i. IdGen_init + 1 + of_nat i :: i64) [0..<m])"
proof -
  have "inj_on (\<lambda>i. IdGen_init + 1 + of_nat i :: i64) (set [0..<m])"
  proof (rule inj_onI)
    fix i j
    assume i: "i \<in> set [0..<m]" and j: "j \<in> set [0..<m]"
      and eq: "IdGen_init + 1 + of_nat i = (IdGen_init + 1 + of_nat j :: i64)"
    from eq have "(of_nat i :: i64) = of_nat j" by simp
    then have "take_bit 64 i = take_bit 64 j"
      by (simp add: word_of_nat_eq_iff)
    moreover from i j assms have "i < 2 ^ 64" "j < 2 ^ 64" by simp_all
    ultimately show "i = j" by (simp add: take_bit_nat_eq_self)
  qed
  then show ?thesis by (simp add: distinct_map)
qed

lemma live_sub_issued: "mset (live_ids (existing es)) \<subseteq># mset (issued es)"
proof -
  obtain idl c vs where r: "run_events es (IdGen_init, []) = (idl, c, vs)"
    by (cases "run_events es (IdGen_init, [])") auto
  from run_events_live [OF r] r show ?thesis
    by (simp add: existing_def issued_def live_ids_def)
qed

text \<open>
  C3 (amended). Take any history of video constructions, comment constructions and
  comment removals that starts with the process. While it issues fewer than \<open>2 ^ 63\<close>
  identifiers, the identifiers issued are, as signed numbers, strictly increasing: the
  k-th one is k. While it issues at most \<open>2 ^ 64\<close> identifiers, they are pairwise
  distinct, across videos and comments, and none is issued again after a comment is
  removed, so the identifiers of the videos and comments that exist at the end are
  pairwise distinct. Those are always among the identifiers issued.
\<close>

theorem IdGen_next_strictly_increasing:
  "(int (length (issued es)) < 2 ^ 63 \<longrightarrow>
      sorted_wrt (<) (map sint (issued es)) \<and>
      map sint (issued es) = map (\<lambda>i. int i + 1) [0..<length (issued es)]) \<and>
   (length (issued es) \<le> 2 ^ 64 \<longrightarrow>
      distinct (issued es) \<and> distinct (live_ids (existing es))) \<and>
   set (live_ids (existing es)) \<subseteq> set (issued es)"
proof -
  have ids: "issued es = map (\<lambda>i. IdGen_init + 1 + of_nat i) [0..<length (issued es)]"
    by (rule issued_closed_form)
  have a: "sorted_wrt (<) (map sint (issued es)) \<and>
      map sint (issued es) = map (\<lambda>i. int i + 1) [0..<length (issued es)]"
    if b: "int (length (issued es)) < 2 ^ 63"
  proof -
    have s: "sorted_wrt (<) (map sint (issued es))"
      using minted_strictly_increasing [OF b] ids by simp
    have "map sint (map (\<lambda>i. IdGen_init + 1 + of_nat i :: i64) [0..<length (issued es)]) =
        map (\<lambda>i. int i + 1) [0..<length (issued es)]"
      using sint_minted [OF b] by simp
    then have "map sint (issued es) = map (\<lambda>i. int i + 1) [0..<length (issued es)]"
      using ids by simp
    with s show ?thesis by simp
  qed
  have d: "distinct (issued es) \<and> distinct (live_ids (existing es))"
    if b: "length (issued es) \<le> 2 ^ 64"
  proof -
    have "distinct (issued es)"
      using minted_distinct [OF b] ids by simp
    with distinct_sub_mset [OF live_sub_issued [of es]] show ?thesis by simp
  qed
  have l: "set (live_ids (existing es)) \<subseteq> set (issued es)"
    using set_mset_mono [OF live_sub_issued [of es]] by simp
  from a d l show ?thesis by blast
qed

theorem IdGen_next_strictly_increasing_witness:
  "int (length (issued history1)) < 2 ^ 63 \<and> length (issued history1) \<le> 2 ^ 64 \<and>
   issued history1 = [1, 2, 3, 4] \<and>
   live_ids (existing history1) = [1, 3, 4] \<and>
   sorted_wrt (<) (map sint (issued history1)) \<and> distinct (issued history1) \<and>
   distinct (live_ids (existing history1))"
proof -
  have i: "issued history1 = [1, 2, 3, 4]"
    by (simp add: history_eval)
  have l: "live_ids (existing history1) = [1, 3, 4]"
    by (simp add: existing_def live_ids_def entity_ids_def history_eval)
  from i have h: "int (length (issued history1)) < 2 ^ 63"
    and h': "length (issued history1) \<le> 2 ^ 64" by simp_all
  from IdGen_next_strictly_increasing [of history1] h h' i l show ?thesis by simp
qed

text \<open>
  The first bound is needed: the counter is a 64-bit signed number, and the
  \<open>2 ^ 63\<close>-th identifier of a process is the smallest signed value, below the one
  issued before it.
\<close>

lemma issued_uploads: "length (fst (run_events (replicate n (Upload t u d)) st)) = n"
proof (induction n arbitrary: st)
  case 0
  show ?case by simp
next
  case (Suc n)
  obtain c vs where st: "st = (c, vs)" by (cases st)
  obtain i st' where a: "apply_event (Upload t u d) st = ([i], st')"
    by (simp add: st Video_ctor_def IdGen_next_def)
  obtain ids st'' where r: "run_events (replicate n (Upload t u d)) st' = (ids, st'')"
    by (cases "run_events (replicate n (Upload t u d)) st'")
  from Suc.IH [of st'] r have "length ids = n" by simp
  with a r show ?case by simp
qed

lemma issued_uploads_nth:
  assumes "i < n"
  shows "issued (replicate n (Upload t u d)) ! i = 1 + of_nat i"
proof -
  have len: "length (issued (replicate n (Upload t u d))) = n"
    by (simp add: issued_def issued_uploads)
  have "issued (replicate n (Upload t u d)) ! i =
      map (\<lambda>i. IdGen_init + 1 + of_nat i) [0..<n] ! i"
    using issued_closed_form [of "replicate n (Upload t u d)"] len by simp
  also have "\<dots> = 1 + of_nat i"
    using assms by (simp add: IdGen_init_def)
  finally show ?thesis .
qed

theorem IdGen_next_wraps_counterexample:
  "\<not> sorted_wrt (<) (map sint (issued (replicate (2 ^ 63) (Upload [] [] 0))))"
proof
  let ?es = "replicate (2 ^ 63) (Upload [] [] 0)"
  assume s: "sorted_wrt (<) (map sint (issued ?es))"
  have len: "length (issued ?es) = 2 ^ 63"
    by (simp add: issued_def issued_uploads)
  have "issued ?es ! (2 ^ 63 - 2) = 1 + of_nat (2 ^ 63 - 2)"
    by (rule issued_uploads_nth) simp
  then have a: "sint (issued ?es ! (2 ^ 63 - 2)) = 2 ^ 63 - 1"
    by simp
  have "issued ?es ! (2 ^ 63 - 1) = 1 + of_nat (2 ^ 63 - 1)"
    by (rule issued_uploads_nth) simp
  then have b: "sint (issued ?es ! (2 ^ 63 - 1)) = - (2 ^ 63)"
    by simp
  have "(2 ^ 63 - 2 :: nat) < 2 ^ 63 - 1" and "(2 ^ 63 - 1 :: nat) < length (map sint (issued ?es))"
    using len by simp_all
  with s have "map sint (issued ?es) ! (2 ^ 63 - 2) < map sint (issued ?es) ! (2 ^ 63 - 1)"
    by (rule sorted_wrt_nth_less)
  moreover have "map sint (issued ?es) ! (2 ^ 63 - 2) = sint (issued ?es ! (2 ^ 63 - 2))"
    using len by (intro nth_map) simp
  moreover have "map sint (issued ?es) ! (2 ^ 63 - 1) = sint (issued ?es ! (2 ^ 63 - 1))"
    using len by (intro nth_map) simp
  ultimately show False using a b by simp
qed

text \<open>
  The second bound is needed as well: after \<open>2 ^ 64\<close> identifiers the counter is back at
  its first value, and the next identifier is the first one again.
\<close>

lemma issued_repeats: "\<not> distinct (issued (replicate (2 ^ 64 + 1) (Upload [] [] 0)))"
proof
  let ?es = "replicate (2 ^ 64 + 1) (Upload [] [] 0)"
  assume d: "distinct (issued ?es)"
  have len: "length (issued ?es) = 2 ^ 64 + 1"
    by (simp add: issued_def issued_uploads)
  have "issued ?es ! 0 = 1 + of_nat 0"
    by (rule issued_uploads_nth) simp
  moreover have "issued ?es ! (2 ^ 64) = 1 + of_nat (2 ^ 64)"
    by (rule issued_uploads_nth) simp
  ultimately have "issued ?es ! 0 = issued ?es ! (2 ^ 64)" by simp
  moreover have "(0 :: nat) < length (issued ?es)" "(2 ^ 64 :: nat) < length (issued ?es)"
    using len by simp_all
  ultimately have "(0 :: nat) = 2 ^ 64"
    using d by (simp only: nth_eq_iff_index_eq)
  then show False by simp
qed

section \<open>\<^verbatim>\<open>Playlist::show\<close>\<close>

lemma show_loop_map_filter:
  "show_loop videoMap xs i =
     List.map_filter (\<lambda>(j, x). map_option (show_entry j) (videoMap x))
       (zip [i..<i + length xs] xs)"
proof (induction xs arbitrary: i)
  case Nil
  show ?case by (simp add: List.map_filter_simps)
next
  case (Cons x xs)
  have "[i..<i + length (x # xs)] = i # [Suc i..<i + length (x # xs)]"
    by (rule upt_conv_Cons) simp
  moreover have "Suc i + length xs = i + length (x # xs)" by simp
  ultimately have "zip [i..<i + length (x # xs)] (x # xs) =
      (i, x) # zip [Suc i..<Suc i + length xs] xs"
    by (simp del: upt_Suc)
  then show ?case using Cons.IH [of "Suc i"]
    by (simp add: List.map_filter_simps split: option.splits)
qed

lemma show_loop_unresolved:
  "\<forall>x\<in>set xs. videoMap x = None \<Longrightarrow> show_loop videoMap xs i = []"
  by (induction xs arbitrary: i) simp_all

lemma show_entry_not_empty: "show_entry i v \<noteq> show_empty"
  by (simp add: show_entry_def show_empty_def)

lemma show_header_not_empty: "show_header p \<noteq> show_empty"
  by (simp add: show_header_def show_empty_def)

lemma show_loop_no_empty: "show_empty \<notin> set (show_loop videoMap xs i)"
  using show_entry_not_empty [THEN not_sym]
  by (induction xs arbitrary: i) (auto split: option.splits)

text \<open>
  C4 (amended). \<^verbatim>\<open>show\<close> writes the header line and then, for a playlist without ids,
  the line "(empty)"; for a playlist with ids it goes through them in order, writes one
  line for each id that the mapping resolves (labelled with the id's position in the
  playlist) and skips the others. When the playlist has ids and none resolves, only the
  header is written: the line "(empty)" appears exactly when the id list has no entries.
\<close>

theorem Playlist_show_spec:
  "(videoIds p = [] \<longrightarrow> Playlist_show p videoMap = [show_header p, show_empty]) \<and>
   (videoIds p \<noteq> [] \<longrightarrow>
      Playlist_show p videoMap =
        show_header p #
        List.map_filter (\<lambda>(j, x). map_option (show_entry j) (videoMap x))
          (zip [0..<length (videoIds p)] (videoIds p))) \<and>
   (videoIds p \<noteq> [] \<and> (\<forall>x\<in>set (videoIds p). videoMap x = None) \<longrightarrow>
      Playlist_show p videoMap = [show_header p]) \<and>
   (show_empty \<in> set (Playlist_show p videoMap) \<longleftrightarrow> videoIds p = [])"
proof -
  have a: "videoIds p = [] \<longrightarrow> Playlist_show p videoMap = [show_header p, show_empty]"
    by (simp add: Playlist_show_def)
  have b: "videoIds p \<noteq> [] \<longrightarrow>
      Playlist_show p videoMap =
        show_header p #
        List.map_filter (\<lambda>(j, x). map_option (show_entry j) (videoMap x))
          (zip [0..<length (videoIds p)] (videoIds p))"
    using show_loop_map_filter [of videoMap "videoIds p" 0] by (simp add: Playlist_show_def)
  have c: "videoIds p \<noteq> [] \<and> (\<forall>x\<in>set (videoIds p). videoMap x = None) \<longrightarrow>
      Playlist_show p videoMap = [show_header p]"
    by (simp add: Playlist_show_def show_loop_unresolved)
  have d: "show_empty \<in> set (Playlist_show p videoMap) \<longleftrightarrow> videoIds p = []"
    using show_header_not_empty [of p] show_loop_no_empty [of videoMap "videoIds p" 0]
    by (auto simp: Playlist_show_def)
  from a b c d show ?thesis by blast
qed

theorem Playlist_show_spec_witness:
  \<open>Playlist_show (Playlist_ctor ''mix'') [1 \<mapsto> video1] =
     [''Playlist: mix\<newline>'', ''  (empty)\<newline>''] \<and>
   Playlist_show playlist1 [1 \<mapsto> video1] =
     [''Playlist: mix\<newline>'', ''  [2] V1 (id=1)\<newline>'', ''  [4] V1 (id=1)\<newline>''] \<and>
   Playlist_show playlist1 Map.empty = [''Playlist: mix\<newline>'']\<close>
  using Playlist_show_spec [of "Playlist_ctor ''mix''" "[1 \<mapsto> video1]"]
    Playlist_show_spec [of playlist1 "[1 \<mapsto> video1]"]
    Playlist_show_spec [of playlist1 Map.empty]
  by (simp add: show_eval)

text \<open>
  A playlist with ids of which none resolves: the output is the header alone, without
  "(empty)".
\<close>

theorem Playlist_show_unresolved_counterexample:
  \<open>videoIds playlist1 \<noteq> [] \<and>
   Playlist_show playlist1 Map.empty = [''Playlist: mix\<newline>''] \<and>
   show_empty \<notin> set (Playlist_show playlist1 Map.empty) \<and>
   \<not> sublist ''(empty)'' (concat (Playlist_show playlist1 Map.empty))\<close>
  by (simp add: show_eval sublist_Cons_right)

section \<open>\<^verbatim>\<open>User::watch\<close>\<close>

text \<open>
  C5. \<^verbatim>\<open>watch\<close> with a null pointer returns NotFound and leaves the user, and so the watch
  history, unchanged. With a video it appends the video's id to the watch history and
  returns the very result of \<^verbatim>\<open>Video::play\<close> on that video, which is updated as
  \<^verbatim>\<open>play\<close> updates it.
\<close>

theorem User_watch_spec:
  "User_watch u None = (mkOpResult2 NOT_FOUND ''Video not found'', u, None) \<and>
   status (fst (User_watch u None)) = NOT_FOUND \<and>
   historyIds (fst (snd (User_watch u None))) = historyIds u \<and>
   User_watch u (Some v) =
     (fst (Video_play v), u\<lparr>historyIds := historyIds u @ [video_id v]\<rparr>,
      Some (snd (Video_play v))) \<and>
   fst (User_watch u (Some v)) = fst (Video_play v)"
  by (simp add: User_watch_def Let_def mkOpResult2_def mkOpResult_def split: prod.splits)

theorem User_watch_spec_witness:
  \<open>status (fst (User_watch alice None)) = NOT_FOUND \<and>
   fst (snd (User_watch alice None)) = alice \<and>
   fst (User_watch alice (Some video1)) =
     \<lparr>status = SUCCESS, message = ''Playing "V1" (views: 1)'', res_id = - 1\<rparr> \<and>
   historyIds (fst (snd (User_watch alice (Some video1)))) = [1] \<and>
   map_option views (snd (snd (User_watch alice (Some video1)))) = Some 1\<close>
  using User_watch_spec [of alice video1]
  by (simp add: alice_eval)

text \<open>
  C10. \<^verbatim>\<open>watch\<close> on a video that is already playing still appends the video's id to the
  watch history, which grows by one entry, although \<^verbatim>\<open>play\<close> is rejected with
  AlreadyExists and the video, with its view count, stays as it was.
\<close>

theorem User_watch_playing:
  "playing v \<Longrightarrow>
     status (fst (User_watch u (Some v))) = ALREADY_EXISTS \<and>
     historyIds (fst (snd (User_watch u (Some v)))) = historyIds u @ [video_id v] \<and>
     length (historyIds (fst (snd (User_watch u (Some v))))) = length (historyIds u) + 1 \<and>
     snd (snd (User_watch u (Some v))) = Some v"
  by (simp add: User_watch_def Video_play_def Let_def mkOpResult2_def mkOpResult_def)

theorem User_watch_playing_witness:
  "playing video1_playing \<and> views video1_playing = 1 \<and>
   historyIds alice_watched = [1] \<and>
   status (fst (User_watch alice_watched (Some video1_playing))) = ALREADY_EXISTS \<and>
   historyIds (fst (snd (User_watch alice_watched (Some video1_playing)))) = [1, 1] \<and>
   map_option views (snd (snd (User_watch alice_watched (Some video1_playing)))) = Some 1"
proof -
  have p: "playing video1_playing"
    by (simp add: video1_playing_def video1_eval)
  from User_watch_playing [OF p, of alice_watched] p show ?thesis
    by (simp add: alice_watched_def video1_playing_def alice_eval)
qed

section \<open>\<^verbatim>\<open>Channel::subscribe\<close>\<close>

text \<open>
  C6. \<^verbatim>\<open>subscribe\<close> of a user who is not a subscriber returns Success and inserts the
  name, so the set grows by one. Of a subscriber it returns AlreadyExists and leaves the
  channel unchanged. Hence a second \<^verbatim>\<open>subscribe\<close> of the same user right after a first
  returns AlreadyExists and leaves the subscriber set, and its size, as the first call
  left it.
\<close>

theorem Channel_subscribe_spec:
  "(user |\<notin>| subscribers ch \<longrightarrow>
      status (fst (Channel_subscribe ch user)) = SUCCESS \<and>
      snd (Channel_subscribe ch user) = ch\<lparr>subscribers := finsert user (subscribers ch)\<rparr> \<and>
      fcard (subscribers (snd (Channel_subscribe ch user))) = fcard (subscribers ch) + 1) \<and>
   (user |\<in>| subscribers ch \<longrightarrow>
      status (fst (Channel_subscribe ch user)) = ALREADY_EXISTS \<and>
      snd (Channel_subscribe ch user) = ch) \<and>
   user |\<in>| subscribers (snd (Channel_subscribe ch user)) \<and>
   status (fst (Channel_subscribe (snd (Channel_subscribe ch user)) user)) = ALREADY_EXISTS \<and>
   snd (Channel_subscribe (snd (Channel_subscribe ch user)) user) =
     snd (Channel_subscribe ch user) \<and>
   fcard (subscribers (snd (Channel_subscribe (snd (Channel_subscribe ch user)) user))) =
     fcard (subscribers (snd (Channel_subscribe ch user)))"
proof -
  have eq: "user |\<in>| s \<Longrightarrow> finsert user s = s" for s :: "string fset"
    by (rule finsert_absorb)
  have a: "user |\<notin>| subscribers ch \<longrightarrow>
      status (fst (Channel_subscribe ch user)) = SUCCESS \<and>
      snd (Channel_subscribe ch user) = ch\<lparr>subscribers := finsert user (subscribers ch)\<rparr> \<and>
      fcard (subscribers (snd (Channel_subscribe ch user))) = fcard (subscribers ch) + 1"
    by (simp add: Channel_subscribe_def uset_insert_def mkOpResult2_def mkOpResult_def
        fcard_finsert_disjoint)
  have b: "user |\<in>| subscribers ch \<longrightarrow>
      status (fst (Channel_subscribe ch user)) = ALREADY_EXISTS \<and>
      snd (Channel_subscribe ch user) = ch"
    by (simp add: Channel_subscribe_def uset_insert_def mkOpResult2_def mkOpResult_def eq)
  have c: "user |\<in>| subscribers (snd (Channel_subscribe ch user))"
    by (simp add: Channel_subscribe_def uset_insert_def)
  have d: "status (fst (Channel_subscribe (snd (Channel_subscribe ch user)) user)) =
      ALREADY_EXISTS \<and>
      snd (Channel_subscribe (snd (Channel_subscribe ch user)) user) =
        snd (Channel_subscribe ch user)"
    using c by (simp add: Channel_subscribe_def [of "snd (Channel_subscribe ch user)"]
        uset_insert_def mkOpResult2_def mkOpResult_def eq)
  from d have e: "fcard (subscribers (snd (Channel_subscribe (snd (Channel_subscribe ch user)) user))) =
      fcard (subscribers (snd (Channel_subscribe ch user)))"
    by simp
  from a b c d e show ?thesis by blast
qed

theorem Channel_subscribe_spec_witness:
  "''bob'' |\<notin>| subscribers channelC \<and>
   status (fst (Channel_subscribe channelC ''bob'')) = SUCCESS \<and>
   subscribers (snd (Channel_subscribe channelC ''bob'')) = {|''bob''|} \<and>
   ''bob'' |\<in>| subscribers (snd (Channel_subscribe channelC ''bob'')) \<and>
   status (fst (Channel_subscribe (snd (Channel_subscribe channelC ''bob'')) ''bob'')) =
     ALREADY_EXISTS \<and>
   subscribers (snd (Channel_subscribe (snd (Channel_subscribe channelC ''bob'')) ''bob'')) =
     {|''bob''|} \<and>
   fcard (subscribers (snd (Channel_subscribe (snd (Channel_subscribe channelC ''bob'')) ''bob'')))
     = 1"
  using Channel_subscribe_spec [of "''bob''" channelC]
    Channel_subscribe_spec [of "''bob''" "snd (Channel_subscribe channelC ''bob'')"]
  by (simp add: channel_eval)

section \<open>The statuses the operations return\<close>

lemma likeComment_loop_status:
  "status (fst (Video_likeComment_loop cs cid)) \<in> {SUCCESS, NOT_FOUND}"
  by (induction cs) (auto simp: Let_def mkOpResult2_def mkOpResult_def split: prod.splits)

lemma removeComment_loop_status:
  "status (fst (Video_removeComment_loop cs cid rq ow)) \<in> {SUCCESS, PERMISSION_DENIED, NOT_FOUND}"
  by (induction cs) (auto simp: mkOpResult2_def mkOpResult_def split: prod.splits)

lemma Video_play_status: "status (fst (Video_play v)) \<in> {SUCCESS, ALREADY_EXISTS}"
  by (simp add: Video_play_def Let_def mkOpResult2_def mkOpResult_def)

lemma Video_pause_status: "status (fst (Video_pause v)) \<in> {SUCCESS, INVALID_INPUT}"
  by (simp add: Video_pause_def mkOpResult2_def mkOpResult_def)

lemma Video_addComment_status: "status (fst (Video_addComment v user body now c)) = SUCCESS"
  by (simp add: Video_addComment_def Comment_ctor_def IdGen_next_def Let_def mkOpResult_def)

lemma Video_likeComment_status: "status (fst (Video_likeComment v cid)) \<in> {SUCCESS, NOT_FOUND}"
  using likeComment_loop_status [of "comments v" cid]
  by (simp add: Video_likeComment_def case_prod_beta)

lemma Video_removeComment_status:
  "status (fst (Video_removeComment v cid rq ow)) \<in> {SUCCESS, PERMISSION_DENIED, NOT_FOUND}"
  using removeComment_loop_status [of "comments v" cid rq ow]
  by (simp add: Video_removeComment_def case_prod_beta)

lemma Channel_subscribe_status:
  "status (fst (Channel_subscribe ch user)) \<in> {SUCCESS, ALREADY_EXISTS}"
  by (simp add: Channel_subscribe_def uset_insert_def mkOpResult2_def mkOpResult_def)

lemma Channel_unsubscribe_status:
  "status (fst (Channel_unsubscribe ch user)) \<in> {SUCCESS, NOT_FOUND}"
  by (simp add: Channel_unsubscribe_def uset_erase_def mkOpResult2_def mkOpResult_def)

lemma User_watch_status:
  "status (fst (User_watch u vp)) \<in> {SUCCESS, ALREADY_EXISTS, NOT_FOUND}"
proof (cases vp)
  case None
  then show ?thesis by (simp add: User_watch_def mkOpResult2_def mkOpResult_def)
next
  case (Some v)
  then show ?thesis using Video_play_status [of v]
    by (auto simp: User_watch_def Let_def split: prod.splits)
qed

lemma User_addComment_status:
  "status (fst (User_addComment u vp body now c)) \<in> {SUCCESS, NOT_FOUND}"
proof (cases vp)
  case None
  then show ?thesis by (simp add: User_addComment_def mkOpResult2_def mkOpResult_def)
next
  case (Some v)
  then show ?thesis using Video_addComment_status [of v "username u" body now c]
    by (auto simp: User_addComment_def split: prod.splits)
qed

lemma User_likeComment_status:
  "status (fst (User_likeComment u vp cid)) \<in> {SUCCESS, NOT_FOUND}"
proof (cases vp)
  case None
  then show ?thesis by (simp add: User_likeComment_def mkOpResult2_def mkOpResult_def)
next
  case (Some v)
  then show ?thesis using Video_likeComment_status [of v cid]
    by (auto simp: User_likeComment_def split: prod.splits)
qed

lemma User_createPlaylist_status:
  "status (fst (User_createPlaylist u pname)) \<in> {SUCCESS, ALREADY_EXISTS}"
  by (simp add: User_createPlaylist_def mkOpResult2_def mkOpResult_def)

lemma User_subscribeChannel_status:
  "status (fst (User_subscribeChannel u ch)) \<in> {SUCCESS, ALREADY_EXISTS}"
  using Channel_subscribe_status [of ch "username u"]
  by (auto simp: User_subscribeChannel_def uset_insert_def mkOpResult2_def mkOpResult_def
      split: prod.splits)

text \<open>
  C8. None of the operations of \<^verbatim>\<open>Video\<close>, \<^verbatim>\<open>Channel\<close> and \<^verbatim>\<open>User\<close> that return an
  \<^verbatim>\<open>OpResult\<close> returns the status NotLoggedIn, whatever the arguments and the state of
  the objects. (\<^verbatim>\<open>Playlist\<close> has no operation that returns an \<^verbatim>\<open>OpResult\<close>.)
\<close>

theorem core_never_NOT_LOGGED_IN:
  "status (fst (Video_play v)) \<noteq> NOT_LOGGED_IN \<and>
   status (fst (Video_pause v)) \<noteq> NOT_LOGGED_IN \<and>
   status (fst (Video_addComment v user body now counter)) \<noteq> NOT_LOGGED_IN \<and>
   status (fst (Video_likeComment v cid)) \<noteq> NOT_LOGGED_IN \<and>
   status (fst (Video_removeComment v cid requester channelOwner)) \<noteq> NOT_LOGGED_IN \<and>
   status (fst (Channel_subscribe ch user)) \<noteq> NOT_LOGGED_IN \<and>
   status (fst (Channel_unsubscribe ch user)) \<noteq> NOT_LOGGED_IN \<and>
   status (fst (User_watch u vp)) \<noteq> NOT_LOGGED_IN \<and>
   status (fst (User_addComment u vp body now counter)) \<noteq> NOT_LOGGED_IN \<and>
   status (fst (User_likeComment u vp cid)) \<noteq> NOT_LOGGED_IN \<and>
   status (fst (User_createPlaylist u pname)) \<noteq> NOT_LOGGED_IN \<and>
   status (fst (User_subscribeChannel u ch)) \<noteq> NOT_LOGGED_IN"
proof -
  have ne: "s \<in> A \<Longrightarrow> NOT_LOGGED_IN \<notin> A \<Longrightarrow> s \<noteq> NOT_LOGGED_IN" for s A
    by blast
  show ?thesis
    using Video_addComment_status [of v user body now counter]
    by (intro conjI ne [OF Video_play_status] ne [OF Video_pause_status]
        ne [OF Video_likeComment_status] ne [OF Video_removeComment_status]
        ne [OF Channel_subscribe_status] ne [OF Channel_unsubscribe_status]
        ne [OF User_watch_status] ne [OF User_addComment_status]
        ne [OF User_likeComment_status] ne [OF User_createPlaylist_status]
        ne [OF User_subscribeChannel_status]) simp_all
qed

theorem core_never_NOT_LOGGED_IN_witness:
  "status (fst (Video_play video1)) = SUCCESS \<and>
   status (fst (Video_pause video1)) = INVALID_INPUT \<and>
   status (fst (Video_addComment video1 ''alice'' ''hi'' 1000 1)) = SUCCESS \<and>
   status (fst (Video_likeComment video1c 2)) = SUCCESS \<and>
   status (fst (Video_likeComment video1c 3)) = NOT_FOUND \<and>
   status (fst (Video_removeComment video1c 2 ''bob'' ''alice'')) = PERMISSION_DENIED \<and>
   status (fst (Channel_subscribe channelC ''bob'')) = SUCCESS \<and>
   status (fst (Channel_unsubscribe channelC ''bob'')) = NOT_FOUND \<and>
   status (fst (User_watch alice None)) = NOT_FOUND \<and>
   status (fst (User_addComment alice None ''hi'' 1000 1)) = NOT_FOUND \<and>
   status (fst (User_likeComment alice (Some video1c) 2)) = SUCCESS \<and>
   status (fst (User_createPlaylist alice ''mix'')) = SUCCESS \<and>
   status (fst (User_createPlaylist (snd (User_createPlaylist alice ''mix'')) ''mix'')) =
     ALREADY_EXISTS \<and>
   status (fst (User_subscribeChannel alice channelC)) = SUCCESS \<and>
   status (fst (User_subscribeChannel (fst (snd (User_subscribeChannel alice channelC)))
     (snd (snd (User_subscribeChannel alice channelC))))) = ALREADY_EXISTS"
  using core_never_NOT_LOGGED_IN [of video1 "''alice''" "''hi''" 1000 1 2 "''bob''" "''alice''"
      channelC alice None "''mix''"]
  by (simp add: video1c_eval alice_eval channel_eval User_addComment_def User_likeComment_def
      User_createPlaylist_def User_subscribeChannel_def Playlist_ctor_def like_def)

section \<open>Search by title\<close>

lemma str_find_sublist: "str_find t q \<noteq> None \<longleftrightarrow> sublist q t"
  by (induction t) (auto simp: sublist_Cons_right)

lemma char_of_eq_iff: "n < 256 \<Longrightarrow> (char_of (n :: nat) = c) \<longleftrightarrow> (of_char c = n)"
  by (metis char_of_char of_char_of mod_less)

lemma eq_char_of_iff: "n < 256 \<Longrightarrow> (c = char_of (n :: nat)) \<longleftrightarrow> (of_char c = n)"
  by (metis char_of_char of_char_of mod_less)

lemma tolower_eq_iff: "tolower a = tolower b \<longleftrightarrow> eq_ignoring_case a b"
proof -
  have up: "of_char (char_of ((of_char c :: nat) + 32)) = (of_char c :: nat) + 32"
    if "is_upper c" for c
    using that by (simp add: is_upper_def)
  note inj = char_of_eq_iff
  show ?thesis
  proof (cases "is_upper a")
    case ua: True
    then have na: "(of_char a :: nat) + 32 < 256" by (simp add: is_upper_def)
    show ?thesis
    proof (cases "is_upper b")
      case True
      then have nb: "(of_char b :: nat) + 32 < 256" by (simp add: is_upper_def)
      have "tolower a = tolower b \<longleftrightarrow> (of_char a :: nat) = of_char b"
        using ua True inj [OF na, of "char_of ((of_char b :: nat) + 32)"] up [OF True]
        by (auto simp: tolower_def)
      moreover have "eq_ignoring_case a b \<longleftrightarrow> (of_char a :: nat) = of_char b"
        using ua True by (auto simp: eq_ignoring_case_def is_upper_def)
      ultimately show ?thesis by simp
    next
      case False
      with ua show ?thesis using inj [OF na, of b]
        by (auto simp: tolower_def eq_ignoring_case_def)
    qed
  next
    case na: False
    show ?thesis
    proof (cases "is_upper b")
      case True
      then have nb: "(of_char b :: nat) + 32 < 256" by (simp add: is_upper_def)
      from na True show ?thesis using inj [OF nb, of a]
        by (auto simp: tolower_def eq_ignoring_case_def)
    next
      case False
      with na show ?thesis by (auto simp: tolower_def eq_ignoring_case_def)
    qed
  qed
qed

lemma map_tolower_eq_iff:
  "map tolower q = map tolower m \<longleftrightarrow> list_all2 eq_ignoring_case q m"
proof -
  have "map tolower q = map tolower m \<longleftrightarrow> list_all2 (\<lambda>a b. tolower a = tolower b) q m"
    by (simp add: list.rel_eq [symmetric] list.rel_map del: list.rel_eq)
  then show ?thesis by (simp add: tolower_eq_iff)
qed

lemma sublist_tolower:
  "sublist (map tolower q) (map tolower t) \<longleftrightarrow> contains_ignoring_case t q"
proof
  assume "sublist (map tolower q) (map tolower t)"
  then obtain p' s' where "map tolower t = p' @ map tolower q @ s'"
    by (auto simp: sublist_def)
  then have "\<exists>us vs. t = us @ vs \<and> p' = map tolower us \<and>
      map tolower q @ s' = map tolower vs"
    by (simp only: map_eq_append_conv)
  then obtain p r where t1: "t = p @ r" and r: "map tolower q @ s' = map tolower r"
    by blast
  from r have "map tolower r = map tolower q @ s'" by (rule sym)
  then have "\<exists>us vs. r = us @ vs \<and> map tolower q = map tolower us \<and> s' = map tolower vs"
    by (simp only: map_eq_append_conv)
  then obtain m s where r1: "r = m @ s" and m: "map tolower q = map tolower m"
    by blast
  from t1 r1 m have "t = p @ m @ s" "map tolower m = map tolower q" by simp_all
  then show "contains_ignoring_case t q"
    using map_tolower_eq_iff [of q m] by (auto simp: contains_ignoring_case_def)
next
  assume "contains_ignoring_case t q"
  then obtain p m s where "t = p @ m @ s" "list_all2 eq_ignoring_case q m"
    by (auto simp: contains_ignoring_case_def)
  then have "map tolower t = map tolower p @ map tolower q @ map tolower s"
    using map_tolower_eq_iff [of q m] by simp
  then show "sublist (map tolower q) (map tolower t)"
    by (auto simp: sublist_def)
qed

lemma search_loop_filter:
  "search_loop videos low =
     filter (\<lambda>p. str_find (transform_tolower (title (snd p))) low \<noteq> None) videos"
  by (induction videos) (simp_all add: Let_def)

text \<open>
  C9. For every query and every collection of videos, the search keeps exactly the
  entries whose title contains the query as a case-insensitive substring, in the order
  the collection is visited, and writes one line for each after the line "Results:".
\<close>

theorem search_spec:
  "search_results videos q =
     filter (\<lambda>p. contains_ignoring_case (title (snd p)) q) videos \<and>
   (p \<in> set (search_results videos q) \<longleftrightarrow>
      p \<in> set videos \<and> contains_ignoring_case (title (snd p)) q) \<and>
   search videos q = ''Results:\<newline>'' # map search_line (search_results videos q)"
proof -
  have "str_find (transform_tolower (title (snd p))) (transform_tolower q) \<noteq> None \<longleftrightarrow>
      contains_ignoring_case (title (snd p)) q" for p :: "i64 \<times> Video"
    unfolding str_find_sublist transform_tolower_def by (rule sublist_tolower)
  then have "search_results videos q =
      filter (\<lambda>p. contains_ignoring_case (title (snd p)) q) videos"
    by (simp only: search_results_def search_loop_filter)
  then show ?thesis by (simp add: search_def)
qed

text \<open>
  On the videos \<^verbatim>\<open>main\<close> starts with, the query "c++" finds "C++ OOP Deep Dive" and not
  "Chill Loops".
\<close>

lemmas search_eval = main_videos_def Channel_upload_def Channel_ctor_def Video_ctor_def
  IdGen_next_def IdGen_init_def search_results_def transform_tolower_def tolower_def
  is_upper_def char_of_eq_iff eq_char_of_iff Let_def


theorem search_spec_witness:
  \<open>map (\<lambda>p. (fst p, title (snd p))) main_videos =
     [(1, ''C++ OOP Deep Dive''), (2, ''Data Structures Overview''), (3, ''Chill Loops'')] \<and>
   map fst (search_results main_videos ''c++'') = [1] \<and>
   search main_videos ''c++'' =
     [''Results:\<newline>'', ''  [1] C++ OOP Deep Dive (channel: KavyaTech)\<newline>''] \<and>
   contains_ignoring_case ''C++ OOP Deep Dive'' ''c++'' \<and>
   \<not> contains_ignoring_case ''Chill Loops'' ''c++''\<close>
proof -
  have r: "search_results main_videos ''c++'' = [main_videos ! 0]"
    by (simp add: search_eval)
  have m: "main_videos ! 0 \<in> set main_videos" "main_videos ! 2 \<in> set main_videos"
    by (simp_all add: search_eval)
  have t: "title (snd (main_videos ! 0)) = ''C++ OOP Deep Dive''"
    "title (snd (main_videos ! 2)) = ''Chill Loops''"
    by (simp_all add: search_eval)
  have n: "main_videos ! 2 \<noteq> main_videos ! 0"
    by (simp add: search_eval)
  from search_spec [of main_videos "''c++''" "main_videos ! 0"] r m t
  have a: "contains_ignoring_case ''C++ OOP Deep Dive'' ''c++''" by simp
  from search_spec [of main_videos "''c++''" "main_videos ! 2"] r m t n
  have b: "\<not> contains_ignoring_case ''Chill Loops'' ''c++''" by simp
  have c: "map (\<lambda>p. (fst p, title (snd p))) main_videos =
     [(1, ''C++ OOP Deep Dive''), (2, ''Data Structures Overview''), (3, ''Chill Loops'')]"
    by (simp add: search_eval)
  have d: "map fst (search_results main_videos ''c++'') = [1]"
    by (simp add: r) (simp add: search_eval)
  have v: "main_videos ! 0 =
      (1, \<lparr>video_id = 1, title = ''C++ OOP Deep Dive'', uploader = ''KavyaTech'',
           durationSec = 900, views = 0, playing = False, comments = []\<rparr>)"
    by (simp add: search_eval)
  have e: \<open>search main_videos ''c++'' =
     [''Results:\<newline>'', ''  [1] C++ OOP Deep Dive (channel: KavyaTech)\<newline>'']\<close>
    by (simp add: search_def r v search_line_def to_string_def)
  show ?thesis
    by (rule conjI [OF c conjI [OF d conjI [OF e conjI [OF a b]]]])
qed

end
